theory Spec2Isabelle
  imports Complex_Main "HOL-Library.Char_ord" "HOL-Library.List_Lexorder" "HOL-Library.Multiset"
begin

section \<open>JavaScript values and the platform\<close>

text \<open>
  The dashboard code works on rows of type \<open>RawRow\<close>, objects whose fields hold
  whatever the spreadsheet parser produced. A field value is modelled by \<open>jsval\<close>: the
  JavaScript primitives the code distinguishes, and \<open>Date\<close> objects, whose time value is
  a number of milliseconds since the epoch, or \<open>None\<close> for an invalid date. Finite
  numbers are rationals (every finite double is one); \<open>NaN\<close> and the infinities are
  not modelled.

  What the code takes from the JavaScript runtime and what depends on the host (its
  locale and its time zone) is collected in a record \<open>platform\<close>, a parameter of every
  function below:
  \<^item> \<open>date_parse\<close> is \<open>Date.parse\<close> on a string, \<open>None\<close> standing for \<open>NaN\<close>;
  \<^item> \<open>tza_utc\<close> and \<open>tza_local\<close> are the host's time zone: the offset of local time
    from UTC in milliseconds, at a UTC time value and at a local time value (a local
    time that a clock change skips is read with the offset in force before the change);
  \<^item> \<open>num_to_string\<close> and \<open>date_to_string\<close> are \<open>String\<close> on a number and on a
    valid \<open>Date\<close>;
  \<^item> \<open>to_lower_case\<close> is \<open>String.prototype.toLowerCase\<close>;
  \<^item> \<open>locale_compare\<close> is \<open>String.prototype.localeCompare\<close>.
  Time values are unbounded integers: the clipping of time values beyond 8.64e15 ms is
  not modelled.
\<close>

datatype jsval =
    JUndefined
  | JNull
  | JBool bool
  | JNum rat
  | JStr string
  | JDate "int option"

record platform =
  date_parse :: "string \<Rightarrow> int option"
  tza_utc :: "int \<Rightarrow> int"
  tza_local :: "int \<Rightarrow> int"
  num_to_string :: "rat \<Rightarrow> string"
  date_to_string :: "int \<Rightarrow> string"
  to_lower_case :: "string \<Rightarrow> string"
  locale_compare :: "string \<Rightarrow> string \<Rightarrow> int"

text \<open>A row is an object: a finite map from column names to values. Reading a key the
  object does not have gives \<open>undefined\<close>.\<close>

type_synonym RawRow = "string \<rightharpoonup> jsval"

definition row_get :: "RawRow \<Rightarrow> string \<Rightarrow> jsval" where
  "row_get row col = (case row col of None \<Rightarrow> JUndefined | Some v \<Rightarrow> v)"

text \<open>\<open>ToBoolean\<close>: the falsy values are \<open>undefined\<close>, \<open>null\<close>, \<open>false\<close>, \<open>0\<close> and
  the empty string; every object, a \<open>Date\<close> included, is truthy.\<close>

fun js_truthy :: "jsval \<Rightarrow> bool" where
  "js_truthy JUndefined = False"
| "js_truthy JNull = False"
| "js_truthy (JBool b) = b"
| "js_truthy (JNum n) = (n \<noteq> 0)"
| "js_truthy (JStr s) = (s \<noteq> [])"
| "js_truthy (JDate d) = True"

text \<open>\<open>a || b\<close> and \<open>a ?? b\<close>.\<close>

definition js_or :: "jsval \<Rightarrow> jsval \<Rightarrow> jsval" where
  "js_or a b = (if js_truthy a then a else b)"

fun js_nullish :: "jsval \<Rightarrow> jsval \<Rightarrow> jsval" where
  "js_nullish JUndefined b = b"
| "js_nullish JNull b = b"
| "js_nullish a b = a"

text \<open>\<open>String(v)\<close>.\<close>

fun js_String :: "platform \<Rightarrow> jsval \<Rightarrow> string" where
  "js_String P JUndefined = ''undefined''"
| "js_String P JNull = ''null''"
| "js_String P (JBool b) = (if b then ''true'' else ''false'')"
| "js_String P (JNum n) = num_to_string P n"
| "js_String P (JStr s) = s"
| "js_String P (JDate None) = ''Invalid Date''"
| "js_String P (JDate (Some t)) = date_to_string P t"


subsection \<open>Dates in local time\<close>

definition msPerDay :: int where
  "msPerDay = 86400000"

text \<open>\<open>LocalTime(t)\<close> and \<open>UTC(t)\<close>, the conversions between a UTC time value and the
  host's local time.\<close>

definition js_LocalTime :: "platform \<Rightarrow> int \<Rightarrow> int" where
  "js_LocalTime P t = t + tza_utc P t"

definition js_UTC :: "platform \<Rightarrow> int \<Rightarrow> int" where
  "js_UTC P lt = lt - tza_local P lt"

text \<open>\<open>Date.prototype.setHours(h, m, s, ms)\<close> on the time value \<open>t\<close>: the local day of
  \<open>t\<close> is kept and the time within the day is replaced; the result is converted back
  to UTC.\<close>

definition js_setHours :: "platform \<Rightarrow> int \<Rightarrow> int \<Rightarrow> int \<Rightarrow> int \<Rightarrow> int \<Rightarrow> int" where
  "js_setHours P t h m s ms =
     js_UTC P ((js_LocalTime P t div msPerDay) * msPerDay
                 + (h * 3600000 + m * 60000 + s * 1000 + ms))"








section \<open>Dashboard filters\<close>

text \<open>\<open>toDateValue\<close>: \<open>null\<close>, \<open>undefined\<close> and the empty string give \<open>null\<close>; a
  \<open>Date\<close> is returned if it is valid; anything else goes through \<open>Date.parse\<close>, which
  converts its argument to a string first. The result is the time value of the date,
  \<open>None\<close> for \<open>null\<close>.\<close>

definition toDateValue :: "platform \<Rightarrow> jsval \<Rightarrow> int option" where
  "toDateValue P v =
     (if v = JNull \<or> v = JUndefined \<or> v = JStr [] then None
      else case v of
             JDate d \<Rightarrow> d
           | _ \<Rightarrow> date_parse P (js_String P v))"

text \<open>\<open>normalizeRangeStart\<close> and \<open>normalizeRangeEnd\<close> take an optional string.\<close>

definition normalizeRangeStart :: "platform \<Rightarrow> string option \<Rightarrow> int option" where
  "normalizeRangeStart P v =
     (case v of
        None \<Rightarrow> None
      | Some s \<Rightarrow>
          if s = [] then None
          else case toDateValue P (JStr s) of
                 None \<Rightarrow> None
               | Some t \<Rightarrow> Some (js_setHours P t 0 0 0 0))"

definition normalizeRangeEnd :: "platform \<Rightarrow> string option \<Rightarrow> int option" where
  "normalizeRangeEnd P v =
     (case v of
        None \<Rightarrow> None
      | Some s \<Rightarrow>
          if s = [] then None
          else case toDateValue P (JStr s) of
                 None \<Rightarrow> None
               | Some t \<Rightarrow> Some (js_setHours P t 23 59 59 999))"

text \<open>The type declarations of \<open>DashboardFilter\<close> and \<open>FilterDataType\<close> are not part
  of the sources at hand. The record follows the object that \<open>addFilter\<close> builds:
  \<open>value\<close> is a string (the field is named \<open>filterValue\<close> here),
  \<open>endValue\<close> and \<open>dataType\<close> may be absent; the data types are the three that
  \<open>inferColumnType\<close> returns.\<close>

datatype FilterDataType = TextType | NumberType | DateType

record DashboardFilter =
  filterId :: string
  column :: string
  filterValue :: string
  endValue :: "string option"
  dataType :: "FilterDataType option"

definition matchesFilterCondition :: "platform \<Rightarrow> RawRow \<Rightarrow> DashboardFilter \<Rightarrow> bool" where
  "matchesFilterCondition P row f =
     (if column f = [] then True
      else
        let v = row_get row (column f) in
        if dataType f = Some DateType then
          (case toDateValue P v of
             None \<Rightarrow> False
           | Some rowDate \<Rightarrow>
               let start = normalizeRangeStart P (Some (filterValue f));
                   end = normalizeRangeEnd P (endValue f)
               in if (case start of None \<Rightarrow> False | Some s \<Rightarrow> rowDate < s) then False
                  else if (case end of None \<Rightarrow> False | Some e \<Rightarrow> rowDate > e) then False
                  else True)
        else if filterValue f = [] then True
        else to_lower_case P (js_String P (js_nullish v (JStr [])))
               = to_lower_case P (filterValue f))"

text \<open>\<open>filteredData\<close> (the global filters) and \<open>applyWidgetFilters\<close> (a widget's own
  filters, which may be absent).\<close>

definition filteredData :: "platform \<Rightarrow> RawRow list \<Rightarrow> DashboardFilter list \<Rightarrow> RawRow list" where
  "filteredData P baseData filters =
     (if length filters = 0 then baseData
      else filter (\<lambda>row. list_all (\<lambda>f. matchesFilterCondition P row f) filters) baseData)"

definition applyWidgetFilters ::
  "platform \<Rightarrow> RawRow list \<Rightarrow> DashboardFilter list option \<Rightarrow> RawRow list" where
  "applyWidgetFilters P rows widgetFilters =
     (case widgetFilters of
        None \<Rightarrow> rows
      | Some fs \<Rightarrow>
          if length fs = 0 then rows
          else filter (\<lambda>row. list_all (\<lambda>f. matchesFilterCondition P row f) fs) rows)"

text \<open>\<open>getUniqueValues\<close>. A JavaScript \<open>Set\<close> keeps its elements in the order of their
  first insertion; \<open>Array.from\<close> lists them in that order. \<open>filter(Boolean)\<close> keeps the
  non-empty strings, \<open>sort()\<close> without a comparator orders strings by their code units,
  and \<open>slice(0, 100)\<close> keeps the first hundred.\<close>

definition js_Set_add :: "'a list \<Rightarrow> 'a \<Rightarrow> 'a list" where
  "js_Set_add s x = (if x \<in> set s then s else s @ [x])"

definition js_Set :: "'a list \<Rightarrow> 'a list" where
  "js_Set xs = foldl js_Set_add [] xs"

definition getUniqueValues :: "platform \<Rightarrow> RawRow list \<Rightarrow> string \<Rightarrow> string list" where
  "getUniqueValues P baseData col =
     (let unique = js_Set (map (\<lambda>row. js_String P (js_or (row_get row col) (JStr []))) baseData)
      in take 100 (sort (filter (\<lambda>s. s \<noteq> []) unique)))"

section \<open>Sorting aggregated entries\<close>

text \<open>\<open>Array.prototype.sort\<close> with a comparator is stable: where the comparator is
  consistent, its result is the one sorted arrangement that keeps elements comparing
  equal in their order. It is modelled by the stable insertion sort; \<open>cmp a b \<le> 0\<close>
  says that \<open>a\<close> may stay before \<open>b\<close>.\<close>

fun js_sort_insert :: "('a \<Rightarrow> 'a \<Rightarrow> 'n::linordered_idom) \<Rightarrow> 'a \<Rightarrow> 'a list \<Rightarrow> 'a list" where
  "js_sort_insert cmp x [] = [x]"
| "js_sort_insert cmp x (y # ys) =
     (if cmp x y \<le> 0 then x # y # ys else y # js_sort_insert cmp x ys)"

definition js_sort :: "('a \<Rightarrow> 'a \<Rightarrow> 'n::linordered_idom) \<Rightarrow> 'a list \<Rightarrow> 'a list" where
  "js_sort cmp xs = foldr (js_sort_insert cmp) xs []"

text \<open>An aggregated entry is an object with a \<open>name\<close> and numeric fields, one of them
  named by \<open>valueKey\<close>. The type \<open>SortOrder\<close> is declared outside the sources at hand;
  its values are the labels of \<open>applySorting\<close>'s \<open>switch\<close>.\<close>

record ChartEntry =
  name :: jsval
  numeric :: "string \<rightharpoonup> rat"

datatype SortOrder = ValueDesc | ValueAsc | NameAsc | NameDesc | Original

text \<open>\<open>a[valueKey] || 0\<close>: a missing field counts as 0.\<close>

definition field_or_zero :: "ChartEntry \<Rightarrow> string \<Rightarrow> rat" where
  "field_or_zero a valueKey = (case numeric a valueKey of None \<Rightarrow> 0 | Some v \<Rightarrow> v)"

definition applySorting ::
  "platform \<Rightarrow> ChartEntry list \<Rightarrow> SortOrder \<Rightarrow> string \<Rightarrow> ChartEntry list" where
  "applySorting P data order valueKey =
     (case order of
        ValueDesc \<Rightarrow>
          js_sort (\<lambda>a b. field_or_zero b valueKey - field_or_zero a valueKey) data
      | ValueAsc \<Rightarrow>
          js_sort (\<lambda>a b. field_or_zero a valueKey - field_or_zero b valueKey) data
      | NameAsc \<Rightarrow>
          js_sort (\<lambda>a b. locale_compare P (js_String P (name a)) (js_String P (name b))) data
      | NameDesc \<Rightarrow>
          js_sort (\<lambda>a b. locale_compare P (js_String P (name b)) (js_String P (name a))) data
      | Original \<Rightarrow> data)"

text \<open>A comparator on strings is consistent when it orders any two strings one way
  or the other and is transitive; \<open>localeCompare\<close> is, for every locale.\<close>

definition consistent_compare :: "(string \<Rightarrow> string \<Rightarrow> int) \<Rightarrow> bool" where
  "consistent_compare cmp \<longleftrightarrow>
     (\<forall>a b. 0 < cmp a b \<longrightarrow> cmp b a \<le> 0) \<and>
     (\<forall>a b c. cmp a b \<le> 0 \<and> cmp b c \<le> 0 \<longrightarrow> cmp a c \<le> 0)"

section \<open>The chunk store\<close>

text \<open>Modelled from the spec: the chunk store and the metadata store (the module
  \<open>utils/storage-v2\<close>, which the documentation names, is not among the sources). A
  dataset's descriptor carries \<open>rowCount\<close>, \<open>chunkCount\<close> and \<open>chunkSize\<close>; its chunks
  are held in index order, chunk \<open>i\<close> at position \<open>i\<close>. The descriptor's other fields
  (name, description, columns, timestamps) play no part in the chunk operations and are
  left out.\<close>

record 'r dataset =
  rowCount :: nat
  chunkCount :: nat
  chunkSize :: nat
  chunks :: "'r list list"

datatype store_error = NotFound

type_synonym 'r store = "string \<rightharpoonup> 'r dataset"

text \<open>Modelled from the spec: "partitions rows into consecutive groups of chunkSize".
  A chunk size of 0 partitions nothing.\<close>

function chunk_rows :: "nat \<Rightarrow> 'r list \<Rightarrow> 'r list list" where
  "chunk_rows n rows =
     (if n = 0 \<or> rows = [] then [] else take n rows # chunk_rows n (drop n rows))"
  by pat_completeness auto
termination
  by (relation "measure (\<lambda>(n, rows). length rows)") auto

declare chunk_rows.simps [simp del]

text \<open>Modelled from the spec: \<open>createDataset\<close> "allocates an empty dataset record;
  rowCount=0, chunkCount=0".\<close>

definition createDataset :: "'r store \<Rightarrow> string \<Rightarrow> nat \<Rightarrow> 'r store" where
  "createDataset st ident csize =
     st(ident \<mapsto> \<lparr>rowCount = 0, chunkCount = 0, chunkSize = csize, chunks = []\<rparr>)"

text \<open>Modelled from the spec: \<open>batchInsert\<close> "partitions rows into consecutive groups of
  chunkSize, writes each group as a new Chunk, then atomically updates
  rowCount/chunkCount". The groups are written as chunks 0, 1, ... (as in the spec's
  scenario, where three rows at chunk size 2 give chunk0 and chunk1), so the rows given
  are the dataset's content after the call; \<open>rowCount\<close> becomes the number of rows
  given and \<open>chunkCount\<close> the number of chunks written. An absent dataset is the error
  \<open>NotFound\<close>.\<close>

definition batchInsert :: "'r store \<Rightarrow> string \<Rightarrow> 'r list \<Rightarrow> store_error + 'r store" where
  "batchInsert st ident rows =
     (case st ident of
        None \<Rightarrow> Inl NotFound
      | Some d \<Rightarrow>
          let written = chunk_rows (chunkSize d) rows
          in Inr (st(ident \<mapsto> d\<lparr>chunks := written,
                                   rowCount := length rows,
                                   chunkCount := length written\<rparr>)))"

text \<open>Modelled from the spec: \<open>append\<close>, "if the last existing chunk has spare capacity,
  fills it first; remaining rows form new full (or one final partial) chunks".
  \<open>rowCount\<close> grows by the number of rows given and \<open>chunkCount\<close> by the number of
  chunks newly allocated.\<close>

definition append :: "'r store \<Rightarrow> string \<Rightarrow> 'r list \<Rightarrow> store_error + 'r store" where
  "append st ident rows =
     (case st ident of
        None \<Rightarrow> Inl NotFound
      | Some d \<Rightarrow>
          if chunks d \<noteq> [] \<and> length (last (chunks d)) < chunkSize d then
            let spare = chunkSize d - length (last (chunks d));
                filled = last (chunks d) @ take spare rows;
                fresh = chunk_rows (chunkSize d) (drop spare rows)
            in Inr (st(ident \<mapsto> d\<lparr>chunks := butlast (chunks d) @ [filled] @ fresh,
                                     rowCount := rowCount d + length rows,
                                     chunkCount := chunkCount d + length fresh\<rparr>))
          else
            let fresh = chunk_rows (chunkSize d) rows
            in Inr (st(ident \<mapsto> d\<lparr>chunks := chunks d @ fresh,
                                     rowCount := rowCount d + length rows,
                                     chunkCount := chunkCount d + length fresh\<rparr>)))"

text \<open>Modelled from the spec: the invariants of a dataset in chunked form. Each chunk
  "holds an ordered sequence of Rows, length \<le> chunkSize (only the final chunk may
  be shorter)"; no chunk is empty; \<open>rowCount\<close> is the sum of the chunk lengths and
  \<open>chunkCount\<close> the number of chunks.\<close>

definition chunked_ok :: "'r dataset \<Rightarrow> bool" where
  "chunked_ok d \<longleftrightarrow>
     rowCount d = sum_list (map length (chunks d)) \<and>
     chunkCount d = length (chunks d) \<and>
     list_all (\<lambda>c. c \<noteq> [] \<and> length c \<le> chunkSize d) (chunks d) \<and>
     list_all (\<lambda>c. length c = chunkSize d) (butlast (chunks d))"

text \<open>Modelled from the spec: the dataset of the spec's scenario, three rows, named \<open>r0\<close>, \<open>r1\<close>, \<open>r2\<close>
  here, stored at chunk size 2.\<close>

definition scenario_dataset :: "string dataset" where
  "scenario_dataset =
     \<lparr>rowCount = 3, chunkCount = 2, chunkSize = 2, chunks = [ [''r0'', ''r1''], [''r2''] ]\<rparr>"

section \<open>Finalizing an aggregation\<close>

text \<open>Modelled from the spec: the aggregation engine's finalization (the module
  \<open>utils/aggregation\<close> is not among the sources). The running accumulator holds, for
  each group in first-seen order, the group's name, the sum of the measured column and
  "a separate row count". Values are exact rationals.\<close>

datatype MeasureKind = Count | Sum | Average

record accumulator =
  group_name :: string
  group_sum :: rat
  group_count :: nat

record result_entry =
  entry_name :: string
  entry_value :: rat

text \<open>Modelled from the spec: "count: increment; sum: add ...; average: accumulate
  sum and a separate row count; divide at finalization".\<close>

definition finalize_value :: "MeasureKind \<Rightarrow> accumulator \<Rightarrow> rat" where
  "finalize_value kind a =
     (case kind of
        Count \<Rightarrow> of_nat (group_count a)
      | Sum \<Rightarrow> group_sum a
      | Average \<Rightarrow> group_sum a / of_nat (group_count a))"

text \<open>Modelled from the spec: "sort entries by the requested order: value descending,
  value ascending, name ascending, name descending, or original first-seen order".\<close>

definition sort_entries :: "SortOrder \<Rightarrow> result_entry list \<Rightarrow> result_entry list" where
  "sort_entries order es =
     (case order of
        ValueDesc \<Rightarrow> sort_key (\<lambda>e. - entry_value e) es
      | ValueAsc \<Rightarrow> sort_key entry_value es
      | NameAsc \<Rightarrow> sort_key entry_name es
      | NameDesc \<Rightarrow> rev (sort_key entry_name es)
      | Original \<Rightarrow> es)"

text \<open>Modelled from the spec: "keep the top N groups and collapse all remaining groups
  into one synthetic Others entry whose value is the sum of the excluded groups'
  values", the ranking being "computed on the primary grouping dimension's total". The
  groups are ranked by value, highest first; the N highest are kept where the requested
  order has put them, and the Others entry follows them. With no more than N groups
  nothing remains to collapse. (The data model also lists a "group remainder" flag with
  the limit; the spec gives it no behaviour, and the step is modelled as stated.)\<close>

definition apply_top_n :: "nat \<Rightarrow> result_entry list \<Rightarrow> result_entry list" where
  "apply_top_n n es =
     (if length es \<le> n then es
      else
        let ranked = sort_key (\<lambda>e. - entry_value e) es;
            kept = take n ranked;
            excluded = drop n ranked
        in filter (\<lambda>e. e \<in> set kept) es
             @ [\<lparr>entry_name = ''Others'',
                 entry_value = sum_list (map entry_value excluded)\<rparr>])"

text \<open>Modelled from the spec: finalization as a whole, "compute averages, then sort
  entries by the requested order", then the top-N step "if a top-N limit is set".\<close>

definition to_entry :: "MeasureKind \<Rightarrow> accumulator \<Rightarrow> result_entry" where
  "to_entry kind a = \<lparr>entry_name = group_name a, entry_value = finalize_value kind a\<rparr>"

definition finalize ::
  "MeasureKind \<Rightarrow> SortOrder \<Rightarrow> nat option \<Rightarrow> accumulator list \<Rightarrow> result_entry list" where
  "finalize kind order topN accs =
     (let es = sort_entries order (map (to_entry kind) accs)
      in case topN of None \<Rightarrow> es | Some n \<Rightarrow> apply_top_n n es)"

section \<open>Reference platforms\<close>

text \<open>The examples below run on concrete platforms. Their \<open>Date.parse\<close> reads calendar
  dates written \<open>YYYY-MM-DD\<close> (as midnight UTC; this is the form an \<open>input\<close> of type
  \<open>date\<close> produces), their numbers print in decimal (the examples use whole numbers
  only), their \<open>toLowerCase\<close> lowers the letters A to Z (the examples are ASCII) and
  their \<open>localeCompare\<close> compares code units. They differ in the time zone:
  \<open>ref_platform\<close> is seven hours east of UTC all year, \<open>west_platform\<close> five hours west
  of UTC all year, and \<open>spring_platform\<close> is two hours east of UTC and advances its
  clocks by one hour at local midnight of 2024-03-31 (at 2024-03-30T22:00:00Z), so that
  the local times from 00:00 to 01:00 of that day are skipped.\<close>

function show_nat :: "nat \<Rightarrow> string" where
  "show_nat n =
     (if n < 10 then [char_of (48 + n)]
      else show_nat (n div 10) @ [char_of (48 + n mod 10)])"
  by pat_completeness auto
termination
  by (relation "measure id") auto

declare show_nat.simps [simp del]

definition show_int :: "int \<Rightarrow> string" where
  "show_int i = (if i < 0 then CHR ''-'' # show_nat (nat (- i)) else show_nat (nat i))"

fun parse_digits :: "nat \<Rightarrow> string \<Rightarrow> nat option" where
  "parse_digits acc [] = Some acc"
| "parse_digits acc (c # cs) =
     (if CHR ''0'' \<le> c \<and> c \<le> CHR ''9''
      then parse_digits (10 * acc + (of_char c - 48)) cs
      else None)"

definition days_in_month :: "nat \<Rightarrow> nat \<Rightarrow> nat" where
  "days_in_month y m =
     (if m = 2 then (if (y mod 4 = 0 \<and> y mod 100 \<noteq> 0) \<or> y mod 400 = 0 then 29 else 28)
      else if m = 4 \<or> m = 6 \<or> m = 9 \<or> m = 11 then 30
      else 31)"

text \<open>Days from 1970-01-01 to a date of the proleptic Gregorian calendar.\<close>

definition days_from_civil :: "int \<Rightarrow> int \<Rightarrow> int \<Rightarrow> int" where
  "days_from_civil y m d =
     (let y' = (if m \<le> 2 then y - 1 else y);
          era = y' div 400;
          yoe = y' - era * 400;
          doy = (153 * (if m > 2 then m - 3 else m + 9) + 2) div 5 + d - 1;
          doe = yoe * 365 + yoe div 4 - yoe div 100 + doy
      in era * 146097 + doe - 719468)"

definition iso_date_parse :: "string \<Rightarrow> int option" where
  "iso_date_parse s =
     (if length s = 10 \<and> s ! 4 = CHR ''-'' \<and> s ! 7 = CHR ''-'' then
        (case (parse_digits 0 (take 4 s), parse_digits 0 (take 2 (drop 5 s)),
               parse_digits 0 (drop 8 s)) of
           (Some y, Some m, Some d) \<Rightarrow>
             if 1 \<le> m \<and> m \<le> 12 \<and> 1 \<le> d \<and> d \<le> days_in_month y m
             then Some (days_from_civil (int y) (int m) (int d) * msPerDay)
             else None
         | _ \<Rightarrow> None)
      else None)"

definition ascii_lower_char :: "char \<Rightarrow> char" where
  "ascii_lower_char c =
     (if CHR ''A'' \<le> c \<and> c \<le> CHR ''Z'' then char_of (of_char c + (32::nat)) else c)"

definition ascii_lower :: "string \<Rightarrow> string" where
  "ascii_lower s = map ascii_lower_char s"

definition code_unit_compare :: "string \<Rightarrow> string \<Rightarrow> int" where
  "code_unit_compare a b = (if a < b then - 1 else if a = b then 0 else 1)"

definition fixed_zone_platform :: "int \<Rightarrow> platform" where
  "fixed_zone_platform offset =
     \<lparr>date_parse = iso_date_parse,
      tza_utc = (\<lambda>t. offset),
      tza_local = (\<lambda>lt. offset),
      num_to_string = (\<lambda>r. show_int \<lfloor>r\<rfloor>),
      date_to_string = (\<lambda>t. ''Date '' @ show_int t),
      to_lower_case = ascii_lower,
      locale_compare = code_unit_compare\<rparr>"

definition ref_platform :: platform where
  "ref_platform = fixed_zone_platform 25200000"



section \<open>Properties of the dashboard filters\<close>

subsection \<open>Arithmetic of days\<close>











subsection \<open>Date-range filters\<close>




text \<open>
  C8, as stated, fails for the same reason: a date filter whose column name is empty
  accepts a row although the row's value for that column, \<open>undefined\<close>, is no date.
\<close>

theorem date_filter_unparsable_counterexample:
  "dataType \<lparr>filterId = ''f2'', column = [], filterValue = [], endValue = None,
             dataType = Some DateType\<rparr> = Some DateType \<and>
   toDateValue ref_platform
     (row_get [''posted'' \<mapsto> JStr ''yesterday'']
        (column \<lparr>filterId = ''f2'', column = [], filterValue = [], endValue = None,
                  dataType = Some DateType\<rparr>)) = None \<and>
   matchesFilterCondition ref_platform [''posted'' \<mapsto> JStr ''yesterday'']
     \<lparr>filterId = ''f2'', column = [], filterValue = [], endValue = None,
      dataType = Some DateType\<rparr>"
  by (simp add: matchesFilterCondition_def toDateValue_def row_get_def)

text \<open>
  C8, amended: for every row and every date-type filter with a non-empty column name,
  if the row's value for the filter column does not parse as a date the row is
  excluded, whatever the bounds are, also when there are none; and a date filter with
  both bounds absent (the start the empty string, the end undefined or the empty
  string) accepts every row whose value does parse as a date.
\<close>

theorem date_filter_unparsable:
  "column f \<noteq> [] \<Longrightarrow> dataType f = Some DateType \<Longrightarrow>
   (toDateValue P (row_get row (column f)) = None \<longrightarrow> \<not> matchesFilterCondition P row f) \<and>
   (filterValue f = [] \<and> (endValue f = None \<or> endValue f = Some []) \<and>
      toDateValue P (row_get row (column f)) \<noteq> None \<longrightarrow> matchesFilterCondition P row f)"
  by (auto simp add: matchesFilterCondition_def Let_def normalizeRangeStart_def
      normalizeRangeEnd_def split: option.splits)

text \<open>A date filter on \<open>posted\<close> without bounds: a row whose value is no date is
  excluded, a row with a date is kept.\<close>

theorem date_filter_unparsable_witness:
  "column \<lparr>filterId = ''f2'', column = ''posted'', filterValue = [], endValue = None,
           dataType = Some DateType\<rparr> \<noteq> [] \<and>
   dataType \<lparr>filterId = ''f2'', column = ''posted'', filterValue = [], endValue = None,
           dataType = Some DateType\<rparr> = Some DateType \<and>
   toDateValue ref_platform (JStr ''yesterday'') = None \<and>
   \<not> matchesFilterCondition ref_platform [''posted'' \<mapsto> JStr ''yesterday'']
      \<lparr>filterId = ''f2'', column = ''posted'', filterValue = [], endValue = None,
       dataType = Some DateType\<rparr> \<and>
   toDateValue ref_platform (JStr ''2024-02-29'') = Some 1709164800000 \<and>
   matchesFilterCondition ref_platform [''posted'' \<mapsto> JStr ''2024-02-29'']
      \<lparr>filterId = ''f2'', column = ''posted'', filterValue = [], endValue = None,
       dataType = Some DateType\<rparr>"
proof -
  have a: "toDateValue ref_platform (JStr ''yesterday'') = None"
    by code_simp
  have b: "toDateValue ref_platform (JStr ''2024-02-29'') = Some 1709164800000"
    by code_simp
  show ?thesis
    using a b
      date_filter_unparsable [of "\<lparr>filterId = ''f2'', column = ''posted'', filterValue = [],
        endValue = None, dataType = Some DateType\<rparr>" ref_platform
        "[''posted'' \<mapsto> JStr ''yesterday'']"]
      date_filter_unparsable [of "\<lparr>filterId = ''f2'', column = ''posted'', filterValue = [],
        endValue = None, dataType = Some DateType\<rparr>" ref_platform
        "[''posted'' \<mapsto> JStr ''2024-02-29'']"]
    by (simp add: row_get_def)
qed

subsection \<open>Categorical filters\<close>

text \<open>
  C4, as stated, fails in two ways.
  \<^item> A filter whose column name is empty passes every row, whatever its value. In the
    example the filter asks for \<open>fb\<close> in the column \<open>''\<close>; the row has no such field,
    the string of its value is not \<open>fb\<close> in any case, and the row passes.
  \<^item> The matcher compares \<open>String(value ?? '')\<close>: a value that is \<open>null\<close> (or missing)
    is compared as the empty string, not as its string representation. A row whose
    channel is \<open>null\<close> does not pass the filter \<open>channel = null\<close>, although \<open>String(null)\<close>
    is \<open>null\<close>.
\<close>

theorem categorical_filter_counterexample:
  "dataType \<lparr>filterId = ''f3'', column = [], filterValue = ''fb'', endValue = None,
             dataType = Some TextType\<rparr> \<noteq> Some DateType \<and>
   filterValue \<lparr>filterId = ''f3'', column = [], filterValue = ''fb'', endValue = None,
             dataType = Some TextType\<rparr> \<noteq> [] \<and>
   matchesFilterCondition ref_platform [''channel'' \<mapsto> JStr ''tw'']
     \<lparr>filterId = ''f3'', column = [], filterValue = ''fb'', endValue = None,
      dataType = Some TextType\<rparr> \<and>
   to_lower_case ref_platform
      (js_String ref_platform (row_get [''channel'' \<mapsto> JStr ''tw''] []))
     \<noteq> to_lower_case ref_platform ''fb'' \<and>
   \<not> matchesFilterCondition ref_platform [''channel'' \<mapsto> JNull]
     \<lparr>filterId = ''f7'', column = ''channel'', filterValue = ''null'', endValue = None,
      dataType = Some TextType\<rparr> \<and>
   to_lower_case ref_platform
      (js_String ref_platform (row_get [''channel'' \<mapsto> JNull] ''channel''))
     = to_lower_case ref_platform ''null''"
proof -
  have l: "to_lower_case ref_platform ''undefined'' \<noteq> to_lower_case ref_platform ''fb''"
    "to_lower_case ref_platform [] \<noteq> to_lower_case ref_platform ''null''"
    by code_simp+
  then show ?thesis
    by (simp add: matchesFilterCondition_def row_get_def)
qed

text \<open>
  C4, amended: for every row and every categorical (non-date) filter with a non-empty
  column name and a non-empty value, the row passes the filter exactly when the string
  representation of the row's value for the filter column, taken as the empty string
  when the value is missing or null, equals the filter value under case-insensitive
  comparison (both strings put in lower case).
\<close>

theorem categorical_filter:
  "column f \<noteq> [] \<Longrightarrow> dataType f \<noteq> Some DateType \<Longrightarrow> filterValue f \<noteq> [] \<Longrightarrow>
   matchesFilterCondition P row f \<longleftrightarrow>
     to_lower_case P (js_String P (js_nullish (row_get row (column f)) (JStr [])))
       = to_lower_case P (filterValue f)"
  by (simp add: matchesFilterCondition_def Let_def)

text \<open>The filter \<open>channel = facebook\<close> keeps a row whose channel is \<open>FaceBook\<close>.\<close>

theorem categorical_filter_witness:
  "column \<lparr>filterId = ''f3'', column = ''channel'', filterValue = ''facebook'',
           endValue = None, dataType = Some TextType\<rparr> \<noteq> [] \<and>
   dataType \<lparr>filterId = ''f3'', column = ''channel'', filterValue = ''facebook'',
           endValue = None, dataType = Some TextType\<rparr> \<noteq> Some DateType \<and>
   filterValue \<lparr>filterId = ''f3'', column = ''channel'', filterValue = ''facebook'',
           endValue = None, dataType = Some TextType\<rparr> \<noteq> [] \<and>
   to_lower_case ref_platform ''FaceBook'' = to_lower_case ref_platform ''facebook'' \<and>
   matchesFilterCondition ref_platform [''channel'' \<mapsto> JStr ''FaceBook'']
     \<lparr>filterId = ''f3'', column = ''channel'', filterValue = ''facebook'',
      endValue = None, dataType = Some TextType\<rparr>"
proof -
  have l: "to_lower_case ref_platform ''FaceBook'' = to_lower_case ref_platform ''facebook''"
    by code_simp
  show ?thesis
    using l categorical_filter [of "\<lparr>filterId = ''f3'', column = ''channel'',
        filterValue = ''facebook'', endValue = None, dataType = Some TextType\<rparr>"
        ref_platform "[''channel'' \<mapsto> JStr ''FaceBook'']"]
    by (simp add: row_get_def)
qed

subsection \<open>Filters that let every row pass\<close>

text \<open>
  C9: for every row, a non-date filter whose value is the empty string accepts the row
  without comparing the row's value, and a filter with an empty column name accepts
  every row regardless of the filter's type.
\<close>

theorem filter_pass_through:
  "(dataType f \<noteq> Some DateType \<and> filterValue f = [] \<longrightarrow> matchesFilterCondition P row f) \<and>
   (column f = [] \<longrightarrow> matchesFilterCondition P row f)"
  by (simp add: matchesFilterCondition_def Let_def)

text \<open>A text filter on \<open>channel\<close> with no value chosen, and a date filter with
  bounds but no column, both accept a row.\<close>

theorem filter_pass_through_witness:
  "dataType \<lparr>filterId = ''f4'', column = ''channel'', filterValue = [], endValue = None,
             dataType = Some TextType\<rparr> \<noteq> Some DateType \<and>
   matchesFilterCondition ref_platform [''channel'' \<mapsto> JStr ''fb'']
     \<lparr>filterId = ''f4'', column = ''channel'', filterValue = [], endValue = None,
      dataType = Some TextType\<rparr> \<and>
   matchesFilterCondition ref_platform [''channel'' \<mapsto> JStr ''fb'']
     \<lparr>filterId = ''f5'', column = [], filterValue = ''2024-01-15'',
      endValue = Some ''2024-01-31'', dataType = Some DateType\<rparr>"
  using
    filter_pass_through [of "\<lparr>filterId = ''f4'', column = ''channel'', filterValue = [],
      endValue = None, dataType = Some TextType\<rparr>" ref_platform "[''channel'' \<mapsto> JStr ''fb'']"]
    filter_pass_through [of "\<lparr>filterId = ''f5'', column = [], filterValue = ''2024-01-15'',
      endValue = Some ''2024-01-31'', dataType = Some DateType\<rparr>" ref_platform
      "[''channel'' \<mapsto> JStr ''fb'']"]
  by simp

subsection \<open>Lists of filters\<close>

text \<open>
  C5: for every row set, filtering with an empty filter list returns the same rows as
  applying no filtering at all (for the global filters, the rows themselves; for a
  widget's filters, the same as with the filters omitted), and when filters are present
  a row is kept exactly when it satisfies every filter: the result is the rows that
  match all filters, in their order.
\<close>

theorem filter_conjunction:
  "filteredData P rows [] = rows \<and>
   applyWidgetFilters P rows (Some []) = applyWidgetFilters P rows None \<and>
   applyWidgetFilters P rows None = rows \<and>
   filteredData P rows fs = filter (\<lambda>row. \<forall>f\<in>set fs. matchesFilterCondition P row f) rows \<and>
   applyWidgetFilters P rows (Some fs)
     = filter (\<lambda>row. \<forall>f\<in>set fs. matchesFilterCondition P row f) rows"
  by (simp add: filteredData_def applyWidgetFilters_def list_all_iff)

text \<open>Three rows under the two filters \<open>channel = fb\<close> and \<open>sentiment = pos\<close>: only
  the row that satisfies both is kept.\<close>

theorem filter_conjunction_witness:
  "map (\<lambda>row. row ''id'')
     (filteredData ref_platform
        [ [''id'' \<mapsto> JNum 1, ''channel'' \<mapsto> JStr ''fb'', ''sentiment'' \<mapsto> JStr ''pos''],
         [''id'' \<mapsto> JNum 2, ''channel'' \<mapsto> JStr ''fb'', ''sentiment'' \<mapsto> JStr ''neg''],
         [''id'' \<mapsto> JNum 3, ''channel'' \<mapsto> JStr ''tw'', ''sentiment'' \<mapsto> JStr ''pos''] ]
        [\<lparr>filterId = ''a'', column = ''channel'', filterValue = ''fb'', endValue = None,
          dataType = Some TextType\<rparr>,
         \<lparr>filterId = ''b'', column = ''sentiment'', filterValue = ''pos'', endValue = None,
          dataType = Some TextType\<rparr>])
   = [Some (JNum 1)]"
proof -
  have l: "to_lower_case ref_platform ''fb'' = ''fb''"
    "to_lower_case ref_platform ''tw'' = ''tw''"
    "to_lower_case ref_platform ''pos'' = ''pos''"
    "to_lower_case ref_platform ''neg'' = ''neg''"
    by code_simp+
  show ?thesis
    using l filter_conjunction [of ref_platform
        "[ [''id'' \<mapsto> JNum 1, ''channel'' \<mapsto> JStr ''fb'', ''sentiment'' \<mapsto> JStr ''pos''],
          [''id'' \<mapsto> JNum 2, ''channel'' \<mapsto> JStr ''fb'', ''sentiment'' \<mapsto> JStr ''neg''],
          [''id'' \<mapsto> JNum 3, ''channel'' \<mapsto> JStr ''tw'', ''sentiment'' \<mapsto> JStr ''pos''] ]"
        "[\<lparr>filterId = ''a'', column = ''channel'', filterValue = ''fb'', endValue = None,
           dataType = Some TextType\<rparr>,
          \<lparr>filterId = ''b'', column = ''sentiment'', filterValue = ''pos'', endValue = None,
           dataType = Some TextType\<rparr>]"]
    by (simp add: matchesFilterCondition_def row_get_def)
qed

section \<open>Properties of the filter dropdown's values\<close>

lemma js_Set_fold_set: "set (foldl js_Set_add acc xs) = set acc \<union> set xs"
  by (induction xs arbitrary: acc) (auto simp add: js_Set_add_def)

lemma js_Set_fold_distinct: "distinct acc \<Longrightarrow> distinct (foldl js_Set_add acc xs)"
  by (induction xs arbitrary: acc) (auto simp add: js_Set_add_def)

lemma set_js_Set: "set (js_Set xs) = set xs"
  by (simp add: js_Set_def js_Set_fold_set)

lemma distinct_js_Set: "distinct (js_Set xs)"
  by (simp add: js_Set_def js_Set_fold_distinct)

lemma sort_distinct_eq: "distinct xs \<Longrightarrow> sort xs = sorted_list_of_set (set xs)"
  by (metis distinct_remdups_id sorted_list_of_set_sort_remdups)

text \<open>The strings collected are those of the truthy values: a falsy value is replaced
  by the empty string before \<open>String\<close> is applied, and empty strings are dropped.\<close>

lemma collected_strings:
  "(\<lambda>row. js_String P (js_or (row_get row col) (JStr []))) ` set rows - {[]}
   = (\<lambda>row. js_String P (row_get row col)) ` {row \<in> set rows. js_truthy (row_get row col)}
       - {[]}"
  by (auto simp add: js_or_def image_iff)

lemma getUniqueValues_sorted_set:
  "getUniqueValues P rows col =
     take 100 (sorted_list_of_set
       ((\<lambda>row. js_String P (row_get row col)) ` {row \<in> set rows. js_truthy (row_get row col)}
          - {[]}))"
proof -
  let ?u = "js_Set (map (\<lambda>row. js_String P (js_or (row_get row col) (JStr []))) rows)"
  have d: "distinct (filter (\<lambda>s. s \<noteq> []) ?u)"
    by (simp add: distinct_js_Set)
  have s: "set (filter (\<lambda>s. s \<noteq> []) ?u) =
      (\<lambda>row. js_String P (js_or (row_get row col) (JStr []))) ` set rows - {[]}"
    by (auto simp add: set_js_Set)
  show ?thesis
    unfolding getUniqueValues_def Let_def sort_distinct_eq [OF d] s collected_strings ..
qed





text \<open>
  C10: for every dataset and column, the result of \<open>getUniqueValues\<close> never contains
  the empty string, and the rows whose value for the column is missing, null or empty
  contribute no entry: leaving them out of the dataset gives the same list.
\<close>

theorem unique_values_nonempty:
  "[] \<notin> set (getUniqueValues P rows col) \<and>
   getUniqueValues P
     (filter (\<lambda>row. row_get row col \<noteq> JUndefined \<and> row_get row col \<noteq> JNull \<and>
                     row_get row col \<noteq> JStr []) rows) col
     = getUniqueValues P rows col"
proof
  have "set (getUniqueValues P rows col) \<subseteq> set (filter (\<lambda>s. s \<noteq> [])
        (js_Set (map (\<lambda>row. js_String P (js_or (row_get row col) (JStr []))) rows)))"
    unfolding getUniqueValues_def Let_def using set_take_subset by (metis set_sort)
  then show "[] \<notin> set (getUniqueValues P rows col)" by auto
next
  have "{row \<in> set (filter (\<lambda>row. row_get row col \<noteq> JUndefined \<and> row_get row col \<noteq> JNull \<and>
        row_get row col \<noteq> JStr []) rows). js_truthy (row_get row col)}
     = {row \<in> set rows. js_truthy (row_get row col)}"
    by auto
  then show "getUniqueValues P
     (filter (\<lambda>row. row_get row col \<noteq> JUndefined \<and> row_get row col \<noteq> JNull \<and>
                     row_get row col \<noteq> JStr []) rows) col
     = getUniqueValues P rows col"
    by (simp only: getUniqueValues_sorted_set)
qed

text \<open>A dataset whose rows have no channel, a null channel and an empty channel
  offers no value at all.\<close>

theorem unique_values_nonempty_witness:
  "getUniqueValues ref_platform
     [ [''sentiment'' \<mapsto> JStr ''pos''], [''channel'' \<mapsto> JNull], [''channel'' \<mapsto> JStr [] ] ]
     ''channel'' = [] \<and>
   [] \<notin> set (getUniqueValues ref_platform
     [ [''channel'' \<mapsto> JStr ''fb''], [''channel'' \<mapsto> JNull], [''channel'' \<mapsto> JStr [] ] ]
     ''channel'')"
proof -
  have v: "getUniqueValues ref_platform
     [ [''sentiment'' \<mapsto> JStr ''pos''], [''channel'' \<mapsto> JNull], [''channel'' \<mapsto> JStr [] ] ]
     ''channel'' = []"
    by code_simp
  show ?thesis
    using v unique_values_nonempty [of ref_platform
      "[ [''channel'' \<mapsto> JStr ''fb''], [''channel'' \<mapsto> JNull], [''channel'' \<mapsto> JStr [] ] ]"
      "''channel''"]
    by simp
qed

section \<open>Properties of the sort orders\<close>

lemma mset_js_sort_insert: "mset (js_sort_insert cmp x ys) = add_mset x (mset ys)"
  by (induction ys) simp_all

lemma mset_js_sort: "mset (js_sort cmp xs) = mset xs"
  by (induction xs) (simp_all add: js_sort_def mset_js_sort_insert)

lemma set_js_sort_insert: "set (js_sort_insert cmp x ys) = insert x (set ys)"
  by (induction ys) auto

lemma sorted_js_sort_insert:
  assumes tot: "\<And>a b. \<not> cmp a b \<le> 0 \<Longrightarrow> cmp b a \<le> 0"
    and trans: "\<And>a b c. cmp a b \<le> 0 \<Longrightarrow> cmp b c \<le> 0 \<Longrightarrow> cmp a c \<le> 0"
    and "sorted_wrt (\<lambda>a b. cmp a b \<le> 0) ys"
  shows "sorted_wrt (\<lambda>a b. cmp a b \<le> 0) (js_sort_insert cmp x ys)"
  using assms(3)
proof (induction ys)
  case Nil
  then show ?case by simp
next
  case (Cons y ys)
  show ?case
  proof (cases "cmp x y \<le> 0")
    case True
    then have "\<forall>z\<in>set ys. cmp x z \<le> 0"
      using Cons.prems trans by auto
    with True Cons.prems show ?thesis by simp
  next
    case False
    then have "cmp y x \<le> 0" by (rule tot)
    with False Cons show ?thesis
      by (auto simp add: set_js_sort_insert)
  qed
qed

lemma sorted_js_sort:
  assumes tot: "\<And>a b. \<not> cmp a b \<le> 0 \<Longrightarrow> cmp b a \<le> 0"
    and trans: "\<And>a b c. cmp a b \<le> 0 \<Longrightarrow> cmp b c \<le> 0 \<Longrightarrow> cmp a c \<le> 0"
  shows "sorted_wrt (\<lambda>a b. cmp a b \<le> 0) (js_sort cmp xs)"
proof (induction xs)
  case Nil
  then show ?case by (simp add: js_sort_def)
next
  case (Cons x xs)
  have "js_sort cmp (x # xs) = js_sort_insert cmp x (js_sort cmp xs)"
    by (simp add: js_sort_def)
  with Cons sorted_js_sort_insert [of cmp "js_sort cmp xs" x, OF tot trans] show ?case
    by simp
qed

lemma consistent_total:
  "consistent_compare cmp \<Longrightarrow> \<not> cmp a b \<le> 0 \<Longrightarrow> cmp b a \<le> 0"
  unfolding consistent_compare_def by (meson not_le)

lemma consistent_trans:
  "consistent_compare cmp \<Longrightarrow> cmp a b \<le> 0 \<Longrightarrow> cmp b c \<le> 0 \<Longrightarrow> cmp a c \<le> 0"
  unfolding consistent_compare_def by blast

lemma consistent_code_unit_compare: "consistent_compare code_unit_compare"
  unfolding consistent_compare_def code_unit_compare_def
  by (auto split: if_splits)

lemma applySorting_permutes: "mset (applySorting P data order valueKey) = mset data"
  by (cases order) (simp_all add: applySorting_def mset_js_sort)

lemma value_desc_sorted:
  "sorted_wrt (\<lambda>a b. field_or_zero a valueKey \<ge> field_or_zero b valueKey)
     (applySorting P data ValueDesc valueKey)"
proof -
  have "sorted_wrt (\<lambda>a b. field_or_zero b valueKey - field_or_zero a valueKey \<le> 0)
     (js_sort (\<lambda>a b. field_or_zero b valueKey - field_or_zero a valueKey) data)"
    by (rule sorted_js_sort) auto
  then show ?thesis by (simp add: applySorting_def)
qed

lemma value_asc_sorted:
  "sorted_wrt (\<lambda>a b. field_or_zero a valueKey \<le> field_or_zero b valueKey)
     (applySorting P data ValueAsc valueKey)"
proof -
  have "sorted_wrt (\<lambda>a b. field_or_zero a valueKey - field_or_zero b valueKey \<le> 0)
     (js_sort (\<lambda>a b. field_or_zero a valueKey - field_or_zero b valueKey) data)"
    by (rule sorted_js_sort) auto
  then show ?thesis by (simp add: applySorting_def)
qed

lemma name_asc_sorted:
  assumes "consistent_compare (locale_compare P)"
  shows "sorted_wrt (\<lambda>a b. locale_compare P (js_String P (name a)) (js_String P (name b)) \<le> 0)
      (applySorting P data NameAsc valueKey)"
proof -
  have "sorted_wrt (\<lambda>a b. locale_compare P (js_String P (name a)) (js_String P (name b)) \<le> 0)
     (js_sort (\<lambda>a b. locale_compare P (js_String P (name a)) (js_String P (name b))) data)"
  proof (rule sorted_js_sort)
    fix a b :: ChartEntry
    assume "\<not> locale_compare P (js_String P (name a)) (js_String P (name b)) \<le> 0"
    then show "locale_compare P (js_String P (name b)) (js_String P (name a)) \<le> 0"
      by (rule consistent_total [OF assms])
  next
    fix a b c :: ChartEntry
    assume "locale_compare P (js_String P (name a)) (js_String P (name b)) \<le> 0"
      and "locale_compare P (js_String P (name b)) (js_String P (name c)) \<le> 0"
    then show "locale_compare P (js_String P (name a)) (js_String P (name c)) \<le> 0"
      by (rule consistent_trans [OF assms])
  qed
  then show ?thesis by (simp add: applySorting_def)
qed

lemma name_desc_sorted:
  assumes "consistent_compare (locale_compare P)"
  shows "sorted_wrt (\<lambda>a b. locale_compare P (js_String P (name b)) (js_String P (name a)) \<le> 0)
      (applySorting P data NameDesc valueKey)"
proof -
  have "sorted_wrt (\<lambda>a b. locale_compare P (js_String P (name b)) (js_String P (name a)) \<le> 0)
     (js_sort (\<lambda>a b. locale_compare P (js_String P (name b)) (js_String P (name a))) data)"
  proof (rule sorted_js_sort)
    fix a b :: ChartEntry
    assume "\<not> locale_compare P (js_String P (name b)) (js_String P (name a)) \<le> 0"
    then show "locale_compare P (js_String P (name a)) (js_String P (name b)) \<le> 0"
      by (rule consistent_total [OF assms])
  next
    fix a b c :: ChartEntry
    assume "locale_compare P (js_String P (name b)) (js_String P (name a)) \<le> 0"
      and "locale_compare P (js_String P (name c)) (js_String P (name b)) \<le> 0"
    then show "locale_compare P (js_String P (name c)) (js_String P (name a)) \<le> 0"
      using consistent_trans [OF assms] by blast
  qed
  then show ?thesis by (simp add: applySorting_def)
qed

text \<open>
  C7: for every list of aggregated entries, the finalization sort supports exactly the
  five requested orders (value descending, value ascending, name ascending, name
  descending, original), and each order produces the corresponding permutation of the
  entries: the result has the same entries as the input, arranged by descending value,
  by ascending value, by ascending name or by descending name (names compared by
  \<open>localeCompare\<close>, taken to be a consistent comparison), and \<open>original\<close> returns the
  input unchanged.
\<close>

theorem applySorting_orders:
  assumes "consistent_compare (locale_compare P)"
  shows "order \<in> {ValueDesc, ValueAsc, NameAsc, NameDesc, Original} \<and>
    mset (applySorting P data order valueKey) = mset data \<and>
    sorted_wrt (\<lambda>a b. field_or_zero a valueKey \<ge> field_or_zero b valueKey)
      (applySorting P data ValueDesc valueKey) \<and>
    sorted_wrt (\<lambda>a b. field_or_zero a valueKey \<le> field_or_zero b valueKey)
      (applySorting P data ValueAsc valueKey) \<and>
    sorted_wrt (\<lambda>a b. locale_compare P (js_String P (name a)) (js_String P (name b)) \<le> 0)
      (applySorting P data NameAsc valueKey) \<and>
    sorted_wrt (\<lambda>a b. locale_compare P (js_String P (name b)) (js_String P (name a)) \<le> 0)
      (applySorting P data NameDesc valueKey) \<and>
    applySorting P data Original valueKey = data"
proof -
  have five: "order \<in> {ValueDesc, ValueAsc, NameAsc, NameDesc, Original}"
    by (cases order) simp_all
  have orig: "applySorting P data Original valueKey = data"
    by (simp add: applySorting_def)
  show ?thesis
    by (intro conjI five applySorting_permutes value_desc_sorted value_asc_sorted
        name_asc_sorted name_desc_sorted orig assms)
qed

text \<open>Three entries, \<open>tw\<close> with value 1, \<open>fb\<close> with value 2 and \<open>ig\<close> without a value
  (it counts as 0), in each of the five orders.\<close>

theorem applySorting_orders_witness:
  "consistent_compare (locale_compare ref_platform) \<and>
   map (\<lambda>e. js_String ref_platform (name e))
     (applySorting ref_platform
       [\<lparr>name = JStr ''tw'', numeric = [''value'' \<mapsto> 1]\<rparr>,
        \<lparr>name = JStr ''fb'', numeric = [''value'' \<mapsto> 2]\<rparr>,
        \<lparr>name = JStr ''ig'', numeric = Map.empty\<rparr>] ValueDesc ''value'') = [''fb'', ''tw'', ''ig''] \<and>
   map (\<lambda>e. js_String ref_platform (name e))
     (applySorting ref_platform
       [\<lparr>name = JStr ''tw'', numeric = [''value'' \<mapsto> 1]\<rparr>,
        \<lparr>name = JStr ''fb'', numeric = [''value'' \<mapsto> 2]\<rparr>,
        \<lparr>name = JStr ''ig'', numeric = Map.empty\<rparr>] ValueAsc ''value'') = [''ig'', ''tw'', ''fb''] \<and>
   map (\<lambda>e. js_String ref_platform (name e))
     (applySorting ref_platform
       [\<lparr>name = JStr ''tw'', numeric = [''value'' \<mapsto> 1]\<rparr>,
        \<lparr>name = JStr ''fb'', numeric = [''value'' \<mapsto> 2]\<rparr>,
        \<lparr>name = JStr ''ig'', numeric = Map.empty\<rparr>] NameAsc ''value'') = [''fb'', ''ig'', ''tw''] \<and>
   map (\<lambda>e. js_String ref_platform (name e))
     (applySorting ref_platform
       [\<lparr>name = JStr ''tw'', numeric = [''value'' \<mapsto> 1]\<rparr>,
        \<lparr>name = JStr ''fb'', numeric = [''value'' \<mapsto> 2]\<rparr>,
        \<lparr>name = JStr ''ig'', numeric = Map.empty\<rparr>] NameDesc ''value'') = [''tw'', ''ig'', ''fb''] \<and>
   map (\<lambda>e. js_String ref_platform (name e))
     (applySorting ref_platform
       [\<lparr>name = JStr ''tw'', numeric = [''value'' \<mapsto> 1]\<rparr>,
        \<lparr>name = JStr ''fb'', numeric = [''value'' \<mapsto> 2]\<rparr>,
        \<lparr>name = JStr ''ig'', numeric = Map.empty\<rparr>] Original ''value'') = [''tw'', ''fb'', ''ig'']"
proof -
  have c: "consistent_compare (locale_compare ref_platform)"
    by (simp add: ref_platform_def fixed_zone_platform_def consistent_code_unit_compare)
  have cmp: "code_unit_compare ''tw'' ''fb'' = 1" "code_unit_compare ''tw'' ''ig'' = 1"
    "code_unit_compare ''fb'' ''ig'' = - 1" "code_unit_compare ''ig'' ''tw'' = - 1"
    "code_unit_compare ''fb'' ''tw'' = - 1" "code_unit_compare ''ig'' ''fb'' = 1"
    by code_simp+
  show ?thesis
    using c cmp applySorting_orders [OF c, of ValueDesc
       "[\<lparr>name = JStr ''tw'', numeric = [''value'' \<mapsto> 1]\<rparr>,
        \<lparr>name = JStr ''fb'', numeric = [''value'' \<mapsto> 2]\<rparr>,
        \<lparr>name = JStr ''ig'', numeric = Map.empty\<rparr>]" "''value''"]
    by (simp add: applySorting_def js_sort_def field_or_zero_def ref_platform_def
        fixed_zone_platform_def)
qed

section \<open>Properties of the chunk store\<close>

lemma chunk_rows_nonempty_step:
  "0 < n \<Longrightarrow> rows \<noteq> [] \<Longrightarrow> chunk_rows n rows = take n rows # chunk_rows n (drop n rows)"
  by (subst chunk_rows.simps) simp

lemma chunk_rows_Nil [simp]: "chunk_rows n [] = []"
  by (subst chunk_rows.simps) simp

lemma chunk_rows_eq_Nil: "0 < n \<Longrightarrow> chunk_rows n rows = [] \<longleftrightarrow> rows = []"
  by (subst chunk_rows.simps) simp

lemma sum_length_chunk_rows:
  "0 < n \<Longrightarrow> sum_list (map length (chunk_rows n rows)) = length rows"
proof (induction n rows rule: chunk_rows.induct)
  case (1 n rows)
  show ?case
  proof (cases "rows = []")
    case True
    then show ?thesis by simp
  next
    case False
    with 1 show ?thesis
      by (simp add: chunk_rows_nonempty_step [of n rows] min_def)
  qed
qed

lemma chunk_rows_sizes:
  "0 < n \<Longrightarrow> list_all (\<lambda>c. c \<noteq> [] \<and> length c \<le> n) (chunk_rows n rows)"
proof (induction n rows rule: chunk_rows.induct)
  case (1 n rows)
  show ?case
  proof (cases "rows = []")
    case True
    then show ?thesis by simp
  next
    case False
    with 1 show ?thesis
      by (simp add: chunk_rows_nonempty_step [of n rows])
  qed
qed

lemma chunk_rows_full:
  "0 < n \<Longrightarrow> list_all (\<lambda>c. length c = n) (butlast (chunk_rows n rows))"
proof (induction n rows rule: chunk_rows.induct)
  case (1 n rows)
  show ?case
  proof (cases "rows = []")
    case True
    then show ?thesis by simp
  next
    case False
    show ?thesis
    proof (cases "drop n rows = []")
      case True
      with False 1 show ?thesis
        by (simp add: chunk_rows_nonempty_step [of n rows])
    next
      case d: False
      then have "n < length rows" by simp
      with False d 1 show ?thesis
        by (simp add: chunk_rows_nonempty_step [of n rows] chunk_rows_eq_Nil)
    qed
  qed
qed


lemma sum_length_full:
  "list_all (\<lambda>c. length c = n) xs \<Longrightarrow> sum_list (map length xs) = length xs * n"
  by (induction xs) simp_all


lemma ceiling_last_chunk:
  fixes k l n :: nat
  assumes "0 < l" and "l \<le> n"
  shows "\<lceil>real (k * n + l) / real n\<rceil> = int k + 1"
proof (rule ceiling_eq)
  have n: "0 < real n" using assms by simp
  have split: "real (k * n + l) / real n = real k + real l / real n"
    using n by (simp add: field_simps)
  have "0 < real l / real n" using assms n by simp
  then show "of_int (int k) < real (k * n + l) / real n"
    unfolding split by simp
  have "real l / real n \<le> 1" using assms n by simp
  then show "real (k * n + l) / real n \<le> of_int (int k) + 1"
    unfolding split by simp
qed


lemma ceiling_chunks:
  assumes n: "0 < n"
    and sizes: "list_all (\<lambda>c. c \<noteq> [] \<and> length c \<le> n) cs"
    and full: "list_all (\<lambda>c. length c = n) (butlast cs)"
  shows "int (length cs) = \<lceil>real (sum_list (map length cs)) / real n\<rceil>"
proof (cases "cs = []")
  case True
  then show ?thesis by simp
next
  case False
  have "last cs \<in> set cs" using False by simp
  then have l: "0 < length (last cs)" "length (last cs) \<le> n"
    using sizes by (auto simp add: list_all_iff)
  have "sum_list (map length (butlast cs @ [last cs])) =
      sum_list (map length (butlast cs)) + length (last cs)"
    by simp
  then have "sum_list (map length cs) = length (butlast cs) * n + length (last cs)"
    using sum_length_full [OF full] False by simp
  then have "\<lceil>real (sum_list (map length cs)) / real n\<rceil> = int (length (butlast cs)) + 1"
    using ceiling_last_chunk [OF l] by simp
  also have "\<dots> = int (length cs)"
    using False by (simp add: Suc_leI)
  finally show ?thesis by simp
qed


text \<open>The shape of the chunk list after \<open>append\<close>: the partial last chunk is filled,
  or the new chunks follow a full last chunk.\<close>

lemma append_sizes:
  assumes n: "0 < n"
    and sizes: "list_all (\<lambda>c. c \<noteq> [] \<and> length c \<le> n) cs"
    and ne: "cs \<noteq> []" and part: "length (last cs) < n"
  shows "list_all (\<lambda>c. c \<noteq> [] \<and> length c \<le> n)
     (butlast cs @ [last cs @ take (n - length (last cs)) rows]
        @ chunk_rows n (drop (n - length (last cs)) rows))"
proof -
  have "list_all (\<lambda>c. c \<noteq> [] \<and> length c \<le> n) (butlast cs)"
    using sizes by (auto simp add: list_all_iff dest: in_set_butlastD)
  moreover have "last cs \<noteq> []"
    using sizes ne by (simp add: list_all_iff)
  ultimately show ?thesis
    using chunk_rows_sizes [OF n, of "drop (n - length (last cs)) rows"] part
    by (auto simp add: min_def)
qed


lemma append_full:
  assumes n: "0 < n"
    and full: "list_all (\<lambda>c. length c = n) (butlast cs)"
    and ne: "cs \<noteq> []" and part: "length (last cs) < n"
  shows "list_all (\<lambda>c. length c = n)
     (butlast (butlast cs @ [last cs @ take (n - length (last cs)) rows]
        @ chunk_rows n (drop (n - length (last cs)) rows)))"
proof (cases "drop (n - length (last cs)) rows = []")
  case True
  then show ?thesis using full by simp
next
  case False
  then have "n - length (last cs) < length rows" by simp
  then have "length (last cs @ take (n - length (last cs)) rows) = n"
    using part by simp
  moreover have "chunk_rows n (drop (n - length (last cs)) rows) \<noteq> []"
    using False n by (simp add: chunk_rows_eq_Nil)
  ultimately show ?thesis
    using full chunk_rows_full [OF n, of "drop (n - length (last cs)) rows"]
    by (simp add: butlast_append)
qed


lemma extend_full:
  assumes n: "0 < n"
    and sizes: "list_all (\<lambda>c. c \<noteq> [] \<and> length c \<le> n) cs"
    and full: "list_all (\<lambda>c. length c = n) (butlast cs)"
    and whole: "cs = [] \<or> \<not> length (last cs) < n"
  shows "list_all (\<lambda>c. length c = n) (butlast (cs @ chunk_rows n rows))"
proof -
  have all: "list_all (\<lambda>c. length c = n) cs"
  proof (cases "cs = []")
    case True
    then show ?thesis by simp
  next
    case False
    have "last cs \<in> set cs" using False by simp
    then have "length (last cs) \<le> n"
      using sizes by (auto simp add: list_all_iff)
    then have "length (last cs) = n"
      using whole False by simp
    then have "list_all (\<lambda>c. length c = n) (butlast cs @ [last cs])"
      using full by simp
    then show ?thesis using False by simp
  qed
  show ?thesis
    using all full chunk_rows_full [OF n, of rows] by (simp add: butlast_append)
qed


lemma chunked_ok_created:
  "chunked_ok \<lparr>rowCount = 0, chunkCount = 0, chunkSize = n, chunks = []\<rparr>"
  by (simp add: chunked_ok_def)

lemma chunked_ok_batchInsert:
  assumes "0 < chunkSize d"
  shows "chunked_ok (d\<lparr>chunks := chunk_rows (chunkSize d) rows, rowCount := length rows,
            chunkCount := length (chunk_rows (chunkSize d) rows)\<rparr>)"
  using assms
  by (simp add: chunked_ok_def sum_length_chunk_rows chunk_rows_sizes chunk_rows_full)

lemma chunked_ok_append_fill:
  assumes n: "0 < chunkSize d" and ok: "chunked_ok d"
    and ne: "chunks d \<noteq> []" and part: "length (last (chunks d)) < chunkSize d"
  shows "chunked_ok (d\<lparr>chunks := butlast (chunks d)
              @ [last (chunks d) @ take (chunkSize d - length (last (chunks d))) rows]
              @ chunk_rows (chunkSize d) (drop (chunkSize d - length (last (chunks d))) rows),
            rowCount := rowCount d + length rows,
            chunkCount := chunkCount d
              + length (chunk_rows (chunkSize d) (drop (chunkSize d - length (last (chunks d))) rows))\<rparr>)"
proof -
  let ?s = "chunkSize d - length (last (chunks d))"
  have "sum_list (map length (butlast (chunks d) @ [last (chunks d)])) =
      sum_list (map length (butlast (chunks d))) + length (last (chunks d))"
    by simp
  then have old: "rowCount d = sum_list (map length (butlast (chunks d))) + length (last (chunks d))"
    using ok ne by (simp add: chunked_ok_def)
  have "length (take ?s rows) + length (drop ?s rows) = length rows"
    by simp
  then have rows: "rowCount d + length rows =
      sum_list (map length (butlast (chunks d) @ [last (chunks d) @ take ?s rows]
          @ chunk_rows (chunkSize d) (drop ?s rows)))"
    using old sum_length_chunk_rows [OF n, of "drop ?s rows"] by simp
  have count: "chunkCount d + length (chunk_rows (chunkSize d) (drop ?s rows)) =
      length (butlast (chunks d) @ [last (chunks d) @ take ?s rows]
          @ chunk_rows (chunkSize d) (drop ?s rows))"
    using ok ne by (simp add: chunked_ok_def)
  have sizes: "list_all (\<lambda>c. c \<noteq> [] \<and> length c \<le> chunkSize d) (chunks d)"
    and full: "list_all (\<lambda>c. length c = chunkSize d) (butlast (chunks d))"
    using ok by (simp_all add: chunked_ok_def)
  show ?thesis
    unfolding chunked_ok_def
    using rows count append_sizes [OF n sizes ne part, of rows] append_full [OF n full ne part, of rows]
    by simp
qed

lemma chunked_ok_append_extend:
  assumes n: "0 < chunkSize d" and ok: "chunked_ok d"
    and whole: "chunks d = [] \<or> \<not> length (last (chunks d)) < chunkSize d"
  shows "chunked_ok (d\<lparr>chunks := chunks d @ chunk_rows (chunkSize d) rows,
            rowCount := rowCount d + length rows,
            chunkCount := chunkCount d + length (chunk_rows (chunkSize d) rows)\<rparr>)"
proof -
  have sizes: "list_all (\<lambda>c. c \<noteq> [] \<and> length c \<le> chunkSize d) (chunks d)"
    and full: "list_all (\<lambda>c. length c = chunkSize d) (butlast (chunks d))"
    using ok by (simp_all add: chunked_ok_def)
  show ?thesis
    unfolding chunked_ok_def
    using ok sizes sum_length_chunk_rows [OF n, of rows] chunk_rows_sizes [OF n, of rows]
      extend_full [OF n sizes full whole, of rows]
    by (simp add: chunked_ok_def)
qed

lemma chunked_ok_ceiling:
  assumes "0 < chunkSize d" and "chunked_ok d"
  shows "sum_list (map length (chunks d)) = rowCount d \<and>
    int (chunkCount d) = \<lceil>real (rowCount d) / real (chunkSize d)\<rceil>"
  using assms ceiling_chunks [of "chunkSize d" "chunks d"]
  by (simp add: chunked_ok_def)

lemma batchInsert_result:
  assumes "st ident = Some d" and "0 < chunkSize d"
  shows "\<exists>d'. batchInsert st ident rows = Inr (st(ident \<mapsto> d')) \<and>
     chunked_ok d' \<and> chunkSize d' = chunkSize d"
proof -
  let ?d = "d\<lparr>chunks := chunk_rows (chunkSize d) rows, rowCount := length rows,
            chunkCount := length (chunk_rows (chunkSize d) rows)\<rparr>"
  have "batchInsert st ident rows = Inr (st(ident \<mapsto> ?d))"
    using assms(1) by (simp add: batchInsert_def Let_def)
  moreover have "chunked_ok ?d"
    by (rule chunked_ok_batchInsert [OF assms(2)])
  moreover have "chunkSize ?d = chunkSize d"
    by simp
  ultimately show ?thesis by blast
qed

lemma append_result:
  assumes present: "st ident = Some d" and size: "0 < chunkSize d" and ok: "chunked_ok d"
  shows "\<exists>d'. append st ident rows = Inr (st(ident \<mapsto> d')) \<and>
     chunked_ok d' \<and> chunkSize d' = chunkSize d"
proof (cases "chunks d \<noteq> [] \<and> length (last (chunks d)) < chunkSize d")
  case True
  let ?d = "d\<lparr>chunks := butlast (chunks d)
              @ [last (chunks d) @ take (chunkSize d - length (last (chunks d))) rows]
              @ chunk_rows (chunkSize d) (drop (chunkSize d - length (last (chunks d))) rows),
            rowCount := rowCount d + length rows,
            chunkCount := chunkCount d
              + length (chunk_rows (chunkSize d)
                  (drop (chunkSize d - length (last (chunks d))) rows))\<rparr>"
  have "append st ident rows = Inr (st(ident \<mapsto> ?d))"
    using present True by (simp add: append_def Let_def)
  moreover have "chunked_ok ?d"
    using True by (intro chunked_ok_append_fill size ok) simp_all
  moreover have "chunkSize ?d = chunkSize d"
    by simp
  ultimately show ?thesis by blast
next
  case False
  let ?d = "d\<lparr>chunks := chunks d @ chunk_rows (chunkSize d) rows,
            rowCount := rowCount d + length rows,
            chunkCount := chunkCount d + length (chunk_rows (chunkSize d) rows)\<rparr>"
  have "append st ident rows = Inr (st(ident \<mapsto> ?d))"
    using present False by (auto simp add: append_def Let_def)
  moreover have "chunked_ok ?d"
    using False by (intro chunked_ok_append_extend size ok) auto
  moreover have "chunkSize ?d = chunkSize d"
    by simp
  ultimately show ?thesis by blast
qed

text \<open>
  C1: for every dataset (a dataset of the store, with a positive chunk size) and every
  completed batchInsert or append call, the stored chunk lengths sum to the dataset's
  rowCount, and chunkCount equals ceil(rowCount / chunkSize). Both calls complete on a
  dataset that is present; \<open>append\<close> adds to a dataset that is in chunked form, and both
  leave the dataset in chunked form.
\<close>

theorem chunk_counts_after_write:
  assumes present: "st ident = Some d" and size: "0 < chunkSize d"
  shows "(\<exists>st' d'. batchInsert st ident rows = Inr st' \<and> st' ident = Some d' \<and>
            sum_list (map length (chunks d')) = rowCount d' \<and>
            int (chunkCount d') = \<lceil>real (rowCount d') / real (chunkSize d')\<rceil> \<and>
            chunked_ok d') \<and>
         (chunked_ok d \<longrightarrow>
           (\<exists>st' d'. append st ident rows = Inr st' \<and> st' ident = Some d' \<and>
              sum_list (map length (chunks d')) = rowCount d' \<and>
              int (chunkCount d') = \<lceil>real (rowCount d') / real (chunkSize d')\<rceil> \<and>
              chunked_ok d'))"
proof (intro conjI impI)
  from batchInsert_result [of st ident d rows, OF present size] obtain d' where
    r: "batchInsert st ident rows = Inr (st(ident \<mapsto> d'))" "chunked_ok d'"
      "chunkSize d' = chunkSize d"
    by blast
  then have "0 < chunkSize d'" using size by simp
  from chunked_ok_ceiling [OF this r(2)] r
  show "\<exists>st' d'. batchInsert st ident rows = Inr st' \<and> st' ident = Some d' \<and>
            sum_list (map length (chunks d')) = rowCount d' \<and>
            int (chunkCount d') = \<lceil>real (rowCount d') / real (chunkSize d')\<rceil> \<and>
            chunked_ok d'"
    by (intro exI [of _ "st(ident \<mapsto> d')"] exI [of _ d']) simp
next
  assume ok: "chunked_ok d"
  from append_result [of st ident d rows, OF present size ok] obtain d' where
    r: "append st ident rows = Inr (st(ident \<mapsto> d'))" "chunked_ok d'"
      "chunkSize d' = chunkSize d"
    by blast
  then have "0 < chunkSize d'" using size by simp
  from chunked_ok_ceiling [OF this r(2)] r
  show "\<exists>st' d'. append st ident rows = Inr st' \<and> st' ident = Some d' \<and>
            sum_list (map length (chunks d')) = rowCount d' \<and>
            int (chunkCount d') = \<lceil>real (rowCount d') / real (chunkSize d')\<rceil> \<and>
            chunked_ok d'"
    by (intro exI [of _ "st(ident \<mapsto> d')"] exI [of _ d']) simp
qed

text \<open>The spec's scenario: three rows at chunk size 2 are stored as two chunks, and
  appending a fourth row fills the second chunk without allocating a third.\<close>

theorem chunk_counts_after_write_witness:
  "[''ds'' \<mapsto> scenario_dataset] ''ds'' = Some scenario_dataset \<and>
   0 < chunkSize scenario_dataset \<and>
   chunked_ok scenario_dataset \<and>
   (case batchInsert (createDataset Map.empty ''ds'' 2) ''ds'' [''r0'', ''r1'', ''r2''] of
      Inl e \<Rightarrow> None | Inr st' \<Rightarrow> st' ''ds'') = Some scenario_dataset \<and>
   (case append [''ds'' \<mapsto> scenario_dataset] ''ds'' [''r3''] of
      Inl e \<Rightarrow> None | Inr st' \<Rightarrow> st' ''ds'')
     = Some \<lparr>rowCount = 4, chunkCount = 2, chunkSize = 2,
             chunks = [ [''r0'', ''r1''], [''r2'', ''r3''] ]\<rparr> \<and>
   int 2 = \<lceil>real 4 / real 2\<rceil>"
proof -
  have c: "chunk_rows 2 [''r0'', ''r1'', ''r2''] = [ [''r0'', ''r1''], [''r2''] ]"
    "chunk_rows 2 ([]::string list) = []"
    by code_simp+
  have h1: "[''ds'' \<mapsto> scenario_dataset] ''ds'' = Some scenario_dataset"
    by simp
  have h2: "0 < chunkSize scenario_dataset"
    by (simp add: scenario_dataset_def)
  have h3: "chunked_ok scenario_dataset"
    by (simp add: chunked_ok_def scenario_dataset_def)
  have b: "(case batchInsert (createDataset Map.empty ''ds'' 2) ''ds'' [''r0'', ''r1'', ''r2''] of
      Inl e \<Rightarrow> None | Inr st' \<Rightarrow> st' ''ds'') = Some scenario_dataset"
    by (simp add: batchInsert_def createDataset_def Let_def c scenario_dataset_def)
  have a: "(case append [''ds'' \<mapsto> scenario_dataset] ''ds'' [''r3''] of
      Inl e \<Rightarrow> None | Inr st' \<Rightarrow> st' ''ds'')
     = Some \<lparr>rowCount = 4, chunkCount = 2, chunkSize = 2,
             chunks = [ [''r0'', ''r1''], [''r2'', ''r3''] ]\<rparr>"
    by (simp add: append_def Let_def c scenario_dataset_def)
  from chunk_counts_after_write
    [of "[''ds'' \<mapsto> scenario_dataset]" "''ds''" scenario_dataset "[''r3'']", OF h1 h2] h3
  obtain st' d' where r: "append [''ds'' \<mapsto> scenario_dataset] ''ds'' [''r3''] = Inr st'"
    "st' ''ds'' = Some d'"
    "int (chunkCount d') = \<lceil>real (rowCount d') / real (chunkSize d')\<rceil>"
    by blast
  from r a have "d' = \<lparr>rowCount = 4, chunkCount = 2, chunkSize = 2,
             chunks = [ [''r0'', ''r1''], [''r2'', ''r3''] ]\<rparr>"
    by simp
  with r(3) have n: "int 2 = \<lceil>real 4 / real 2\<rceil>"
    by simp
  from h1 h2 h3 b a n show ?thesis
    by (intro conjI)
qed

section \<open>Properties of the top-N step\<close>

lemma sum_list_mset_cong:
  fixes f :: "'a \<Rightarrow> rat"
  assumes "mset xs = mset ys"
  shows "sum_list (map f xs) = sum_list (map f ys)"
proof -
  have "sum_mset (image_mset f (mset xs)) = sum_mset (image_mset f (mset ys))"
    using assms by simp
  then show ?thesis by (simp only: flip: mset_map sum_mset_sum_list)
qed

lemma top_n_shape:
  assumes d: "distinct es" and n: "n < length es"
  shows "\<exists>top others. apply_top_n n es = top @ [others] \<and> length top = n \<and> distinct top \<and>
     set top \<subseteq> set es \<and>
     (\<forall>a\<in>set top. \<forall>b\<in>set es - set top. entry_value b \<le> entry_value a) \<and>
     entry_name others = ''Others'' \<and>
     entry_value others = sum_list (map entry_value es) - sum_list (map entry_value top)"
proof -
  define ranked where "ranked = sort_key (\<lambda>e. - entry_value e) es"
  define kept where "kept = take n ranked"
  define excluded where "excluded = drop n ranked"
  define top where "top = filter (\<lambda>e. e \<in> set kept) es"
  have r_mset: "mset ranked = mset es" by (simp add: ranked_def)
  have r_set: "set ranked = set es" by (simp add: ranked_def)
  have r_dist: "distinct ranked" using d by (simp add: ranked_def)
  have r_len: "length ranked = length es" by (simp add: ranked_def)
  have split: "ranked = kept @ excluded" by (simp add: kept_def excluded_def)
  have k_len: "length kept = n" using n r_len by (simp add: kept_def)
  have k_dist: "distinct kept" using r_dist by (simp add: kept_def)
  have k_sub: "set kept \<subseteq> set es" using r_set split by auto
  have t_set: "set top = set kept" using k_sub by (auto simp add: top_def)
  have t_dist: "distinct top" using d by (simp add: top_def)
  have t_mset: "mset top = mset kept"
    using t_set t_dist k_dist by (simp add: set_eq_iff_mset_eq_distinct)
  have t_len: "length top = n"
    using t_mset k_len by (metis size_mset)
  have sums: "sum_list (map entry_value es) =
      sum_list (map entry_value top) + sum_list (map entry_value excluded)"
  proof -
    have "sum_list (map entry_value es) = sum_list (map entry_value ranked)"
      using r_mset by (rule sum_list_mset_cong [symmetric])
    also have "\<dots> = sum_list (map entry_value kept) + sum_list (map entry_value excluded)"
      by (simp add: split)
    also have "sum_list (map entry_value kept) = sum_list (map entry_value top)"
      using t_mset by (rule sum_list_mset_cong [symmetric])
    finally show ?thesis .
  qed
  have "sorted (map (\<lambda>e. - entry_value e) ranked)" by (simp add: ranked_def)
  then have ord: "\<forall>a\<in>set kept. \<forall>b\<in>set excluded. entry_value b \<le> entry_value a"
    by (auto simp add: split sorted_append)
  have rest: "set es - set top \<subseteq> set excluded"
    using r_set split t_set by auto
  have eq: "apply_top_n n es = top @ [\<lparr>entry_name = ''Others'',
       entry_value = sum_list (map entry_value excluded)\<rparr>]"
    using n by (simp add: apply_top_n_def Let_def top_def kept_def excluded_def ranked_def)
  show ?thesis
  proof (intro exI conjI)
    show "apply_top_n n es = top @ [\<lparr>entry_name = ''Others'',
       entry_value = sum_list (map entry_value excluded)\<rparr>]" by (rule eq)
    show "length top = n" by (rule t_len)
    show "distinct top" by (rule t_dist)
    show "set top \<subseteq> set es" using t_set k_sub by simp
    show "\<forall>a\<in>set top. \<forall>b\<in>set es - set top. entry_value b \<le> entry_value a"
      using ord rest t_set by blast
    show "entry_name \<lparr>entry_name = ''Others'',
       entry_value = sum_list (map entry_value excluded)\<rparr> = ''Others''" by simp
    show "entry_value \<lparr>entry_name = ''Others'',
       entry_value = sum_list (map entry_value excluded)\<rparr> =
       sum_list (map entry_value es) - sum_list (map entry_value top)"
      using sums by simp
  qed
qed

lemma mset_sort_entries: "mset (sort_entries order es) = mset es"
  by (cases order) (simp_all add: sort_entries_def)

lemma distinct_to_entry:
  assumes "distinct (map group_name accs)"
  shows "distinct (map (to_entry kind) accs)"
proof -
  have "map entry_name (map (to_entry kind) accs) = map group_name accs"
    by (simp add: to_entry_def)
  then have "distinct (map entry_name (map (to_entry kind) accs))"
    using assms by (simp only:)
  then show ?thesis by (metis distinct_map)
qed

text \<open>
  C2: for every aggregation with a top-N limit N over M > N distinct groups, the
  finalized result has exactly N + 1 entries: the top N groups (N distinct entries of
  the groups, none of them with a smaller value than a group left out) plus one
  synthetic "Others" entry whose value equals the total of all groups minus the sum of
  the N returned group values.
\<close>

theorem top_n_others:
  assumes names: "distinct (map group_name accs)" and n: "n < length accs"
  shows "\<exists>top others. finalize kind order (Some n) accs = top @ [others] \<and>
     length (finalize kind order (Some n) accs) = n + 1 \<and>
     length top = n \<and> distinct top \<and>
     set top \<subseteq> set (map (to_entry kind) accs) \<and>
     (\<forall>a\<in>set top. \<forall>b\<in>set (map (to_entry kind) accs) - set top.
         entry_value b \<le> entry_value a) \<and>
     entry_name others = ''Others'' \<and>
     entry_value others =
       sum_list (map (finalize_value kind) accs) - sum_list (map entry_value top)"
proof -
  define es where "es = sort_entries order (map (to_entry kind) accs)"
  have m: "mset es = mset (map (to_entry kind) accs)"
    by (simp add: es_def mset_sort_entries)
  have d: "distinct es"
    using distinct_to_entry [OF names, of kind] m by (metis mset_eq_imp_distinct_iff)
  have l: "n < length es"
    using n m by (metis length_map size_mset)
  have s: "set es = set (map (to_entry kind) accs)"
    using m by (rule mset_eq_setD)
  have "sum_list (map entry_value es) = sum_list (map entry_value (map (to_entry kind) accs))"
    using m by (rule sum_list_mset_cong)
  then have total: "sum_list (map entry_value es) = sum_list (map (finalize_value kind) accs)"
    by (simp add: to_entry_def comp_def)
  have f: "finalize kind order (Some n) accs = apply_top_n n es"
    by (simp add: finalize_def es_def)
  from top_n_shape [OF d l] obtain top others where
    t: "apply_top_n n es = top @ [others]" "length top = n" "distinct top" "set top \<subseteq> set es"
      "\<forall>a\<in>set top. \<forall>b\<in>set es - set top. entry_value b \<le> entry_value a"
      "entry_name others = ''Others''"
      "entry_value others = sum_list (map entry_value es) - sum_list (map entry_value top)"
    by blast
  show ?thesis
  proof (intro exI conjI)
    show "finalize kind order (Some n) accs = top @ [others]" using f t(1) by simp
    show "length (finalize kind order (Some n) accs) = n + 1" using f t(1) t(2) by simp
    show "length top = n" by (rule t(2))
    show "distinct top" by (rule t(3))
    show "set top \<subseteq> set (map (to_entry kind) accs)" using t(4) s by simp
    show "\<forall>a\<in>set top. \<forall>b\<in>set (map (to_entry kind) accs) - set top.
         entry_value b \<le> entry_value a" using t(5) s by simp
    show "entry_name others = ''Others''" by (rule t(6))
    show "entry_value others =
       sum_list (map (finalize_value kind) accs) - sum_list (map entry_value top)"
      using t(7) total by simp
  qed
qed

text \<open>Four channels counted, the two largest kept in name order: \<open>fb\<close> with 5 and \<open>ig\<close>
  with 3 rows, and Others with the remaining 3 of the 11 rows.\<close>

theorem top_n_others_witness:
  "distinct (map group_name
     [\<lparr>group_name = ''tw'', group_sum = 0, group_count = 1\<rparr>,
      \<lparr>group_name = ''fb'', group_sum = 0, group_count = 5\<rparr>,
      \<lparr>group_name = ''ig'', group_sum = 0, group_count = 3\<rparr>,
      \<lparr>group_name = ''yt'', group_sum = 0, group_count = 2\<rparr>]) \<and>
   2 < length
     [\<lparr>group_name = ''tw'', group_sum = 0, group_count = 1\<rparr>,
      \<lparr>group_name = ''fb'', group_sum = 0, group_count = 5\<rparr>,
      \<lparr>group_name = ''ig'', group_sum = 0, group_count = 3\<rparr>,
      \<lparr>group_name = ''yt'', group_sum = 0, group_count = 2\<rparr>] \<and>
   finalize Count NameAsc (Some 2)
     [\<lparr>group_name = ''tw'', group_sum = 0, group_count = 1\<rparr>,
      \<lparr>group_name = ''fb'', group_sum = 0, group_count = 5\<rparr>,
      \<lparr>group_name = ''ig'', group_sum = 0, group_count = 3\<rparr>,
      \<lparr>group_name = ''yt'', group_sum = 0, group_count = 2\<rparr>]
     = [\<lparr>entry_name = ''fb'', entry_value = 5\<rparr>, \<lparr>entry_name = ''ig'', entry_value = 3\<rparr>,
        \<lparr>entry_name = ''Others'', entry_value = 3\<rparr>] \<and>
   length (finalize Count NameAsc (Some 2)
     [\<lparr>group_name = ''tw'', group_sum = 0, group_count = 1\<rparr>,
      \<lparr>group_name = ''fb'', group_sum = 0, group_count = 5\<rparr>,
      \<lparr>group_name = ''ig'', group_sum = 0, group_count = 3\<rparr>,
      \<lparr>group_name = ''yt'', group_sum = 0, group_count = 2\<rparr>]) = 2 + 1 \<and>
   sum_list (map (finalize_value Count)
     [\<lparr>group_name = ''tw'', group_sum = 0, group_count = 1\<rparr>,
      \<lparr>group_name = ''fb'', group_sum = 0, group_count = 5\<rparr>,
      \<lparr>group_name = ''ig'', group_sum = 0, group_count = 3\<rparr>,
      \<lparr>group_name = ''yt'', group_sum = 0, group_count = 2\<rparr>]) - (5 + 3) = 3"
proof -
  have h1: "distinct (map group_name
     [\<lparr>group_name = ''tw'', group_sum = 0, group_count = 1\<rparr>,
      \<lparr>group_name = ''fb'', group_sum = 0, group_count = 5\<rparr>,
      \<lparr>group_name = ''ig'', group_sum = 0, group_count = 3\<rparr>,
      \<lparr>group_name = ''yt'', group_sum = 0, group_count = 2\<rparr>])"
    by simp
  have h2: "2 < length
     [\<lparr>group_name = ''tw'', group_sum = 0, group_count = 1\<rparr>,
      \<lparr>group_name = ''fb'', group_sum = 0, group_count = 5\<rparr>,
      \<lparr>group_name = ''ig'', group_sum = 0, group_count = 3\<rparr>,
      \<lparr>group_name = ''yt'', group_sum = 0, group_count = 2\<rparr>]"
    by simp
  have v: "finalize Count NameAsc (Some 2)
     [\<lparr>group_name = ''tw'', group_sum = 0, group_count = 1\<rparr>,
      \<lparr>group_name = ''fb'', group_sum = 0, group_count = 5\<rparr>,
      \<lparr>group_name = ''ig'', group_sum = 0, group_count = 3\<rparr>,
      \<lparr>group_name = ''yt'', group_sum = 0, group_count = 2\<rparr>]
     = [\<lparr>entry_name = ''fb'', entry_value = 5\<rparr>, \<lparr>entry_name = ''ig'', entry_value = 3\<rparr>,
        \<lparr>entry_name = ''Others'', entry_value = 3\<rparr>]"
    by code_simp
  have t: "sum_list (map (finalize_value Count)
     [\<lparr>group_name = ''tw'', group_sum = 0, group_count = 1\<rparr>,
      \<lparr>group_name = ''fb'', group_sum = 0, group_count = 5\<rparr>,
      \<lparr>group_name = ''ig'', group_sum = 0, group_count = 3\<rparr>,
      \<lparr>group_name = ''yt'', group_sum = 0, group_count = 2\<rparr>]) - (5 + 3) = 3"
    by (simp add: finalize_value_def)
  from top_n_others [OF h1 h2, of Count NameAsc]
  have l: "length (finalize Count NameAsc (Some 2)
     [\<lparr>group_name = ''tw'', group_sum = 0, group_count = 1\<rparr>,
      \<lparr>group_name = ''fb'', group_sum = 0, group_count = 5\<rparr>,
      \<lparr>group_name = ''ig'', group_sum = 0, group_count = 3\<rparr>,
      \<lparr>group_name = ''yt'', group_sum = 0, group_count = 2\<rparr>]) = 2 + 1"
    by blast
  from h1 h2 v l t show ?thesis
    by (intro conjI)
qed

end
